theory Spec2Isabelle
  imports Complex_Main
begin

section \<open>Python values used by ttp.py\<close>

text \<open>
  A Python \<open>str\<close> is a sequence of Unicode code points; a character is modelled by its
  code point, so that \<open>chr(key)\<close> of a curses key code such as 259 is a character too.
  Python \<open>int\<close> is \<open>int\<close>; Python \<open>float\<close> (clock readings, speed, accuracy) is
  abstracted to \<open>real\<close>, with the division raising on a zero divisor as Python's does.
\<close>

type_synonym pychar = nat
type_synonym pystr = "pychar list"

datatype py_error = ZeroDivisionError | IndexError | ValueError | OverflowError | TypeError

definition str_of :: "string \<Rightarrow> pystr" where
  "str_of cs = map of_char cs"

definition py_index :: "'a list \<Rightarrow> int \<Rightarrow> py_error + 'a" where
  \<comment> \<open>\<open>xs[i]\<close>: a negative index counts from the end, out of range raises.\<close>
  "py_index xs i =
     (if 0 \<le> i \<and> i < int (length xs) then Inr (xs ! nat i)
      else if i < 0 \<and> - int (length xs) \<le> i then Inr (xs ! nat (int (length xs) + i))
      else Inl IndexError)"

definition py_chr :: "int \<Rightarrow> py_error + pychar" where
  \<comment> \<open>\<open>chr(key)\<close>: the argument is converted to a C int first (OverflowError beyond
      32 bits), then ValueError outside \<open>range(0x110000)\<close>.\<close>
  "py_chr k =
     (if k < - 2147483648 \<or> 2147483647 < k then Inl OverflowError
      else if 0 \<le> k \<and> k < 1114112 then Inr (nat k)
      else Inl ValueError)"

definition py_truediv :: "real \<Rightarrow> real \<Rightarrow> py_error + real" where
  \<comment> \<open>\<open>a / b\<close> on numbers.\<close>
  "py_truediv a b = (if b = 0 then Inl ZeroDivisionError else Inr (a / b))"

definition py_floordiv :: "int \<Rightarrow> int \<Rightarrow> py_error + int" where
  \<comment> \<open>\<open>a // b\<close> on ints: floor division, as \<open>div\<close> on \<open>int\<close>.\<close>
  "py_floordiv a b = (if b = 0 then Inl ZeroDivisionError else Inr (a div b))"

definition rstrip_nl :: "pystr \<Rightarrow> pystr" where
  \<comment> \<open>\<open>line.rstrip('\n')\<close>: every trailing newline (code point 10) is removed.\<close>
  "rstrip_nl line = rev (dropWhile (\<lambda>c. c = 10) (rev line))"

definition KEY_BACKSPACE :: int where
  \<comment> \<open>\<open>curses.KEY_BACKSPACE\<close>, octal 0407 in ncurses.\<close>
  "KEY_BACKSPACE = 263"

section \<open>The exercise object\<close>

record exercise =
  exercise_name :: string
  text_str :: pystr
  lines :: "pystr list"
  total_chars :: int
  current_pos :: int
  correct_chars :: int
  wrong_chars :: int
  start_time :: "real option"
  end_time :: "real option"
  user_input :: "pychar list"
  current_page :: int
  total_pages :: int
  page_line_count :: int
  pages :: "pystr list"
  page_indices :: "(int \<times> int) list"

definition init :: "string \<Rightarrow> pystr list \<Rightarrow> exercise" where
  \<comment> \<open>\<open>__init__\<close>, lines 12-45, from the result \<open>ls\<close> of \<open>splitlines(keepends=True)\<close>
      on the file's content; the field \<open>text\<close> is \<open>text_str\<close> here.\<close>
  "init name ls =
     \<lparr> exercise_name = name, text_str = concat ls, lines = ls,
       total_chars = int (length (concat ls)), current_pos = 0,
       correct_chars = 0, wrong_chars = 0, start_time = None, end_time = None,
       user_input = [], current_page = 0, total_pages = 0, page_line_count = 0,
       pages = [], page_indices = [] \<rparr>"

section \<open>Pagination (run, lines 57-89)\<close>

definition lines_needed :: "pystr \<Rightarrow> int \<Rightarrow> py_error + int" where
  \<comment> \<open>Lines 65-68.\<close>
  "lines_needed line width =
     (case py_floordiv (int (length (rstrip_nl line)) + width - 1) width of
        Inl e \<Rightarrow> Inl e
      | Inr n \<Rightarrow> Inr (if n = 0 then 1 else n))"

text \<open>
  The \<open>for\<close> loop of lines 64-81 over the remaining lines, with the loop's variables as
  arguments: \<open>self.pages\<close>, \<open>self.page_indices\<close>, \<open>current_page\<close> (the lines of the page
  being filled), \<open>current_chars\<close> and \<open>line_count\<close>. \<open>total_lines\<close> is written and
  never read, and is left out.
\<close>

fun paginate_lines ::
  "int \<Rightarrow> int \<Rightarrow> pystr list \<Rightarrow> pystr list \<Rightarrow> (int \<times> int) list \<Rightarrow> pystr list \<Rightarrow> int \<Rightarrow> int
     \<Rightarrow> py_error + (pystr list \<times> (int \<times> int) list \<times> pystr list \<times> int)" where
  "paginate_lines width plc [] pgs idx cur chars lc = Inr (pgs, idx, cur, chars)"
| "paginate_lines width plc (line # rest) pgs idx cur chars lc =
     (case lines_needed line width of
        Inl e \<Rightarrow> Inl e
      | Inr needed \<Rightarrow>
          if lc + needed > plc \<and> lc > 0
          then paginate_lines width plc rest
                 (pgs @ [concat cur])
                 (idx @ [(chars - int (length (concat cur)), chars)])
                 [line] (chars + int (length line)) needed
          else paginate_lines width plc rest pgs idx
                 (cur @ [line]) (chars + int (length line)) (lc + needed))"

definition paginate :: "exercise \<Rightarrow> int \<Rightarrow> py_error + exercise" where
  \<comment> \<open>Lines 57-89: \<open>self.pages\<close> is reset, \<open>self.page_indices\<close> is not.\<close>
  "paginate s width =
     (case paginate_lines width (page_line_count s) (lines s) [] (page_indices s) [] 0 0 of
        Inl e \<Rightarrow> Inl e
      | Inr (pgs, idx, cur, chars) \<Rightarrow>
          let (pgs', idx') =
                (if cur \<noteq> []
                 then (pgs @ [concat cur], idx @ [(chars - int (length (concat cur)), chars)])
                 else (pgs, idx))
          in Inr (s\<lparr>pages := pgs', page_indices := idx', total_pages := int (length pgs')\<rparr>))"

text \<open>The offset ranges of a sequence of page texts laid end to end from offset \<open>b\<close>.\<close>

fun ranges_from :: "int \<Rightarrow> pystr list \<Rightarrow> (int \<times> int) list" where
  "ranges_from b [] = []"
| "ranges_from b (p # ps) = (b, b + int (length p)) # ranges_from (b + int (length p)) ps"

definition py_slice :: "'a list \<Rightarrow> int \<Rightarrow> int \<Rightarrow> 'a list" where
  \<comment> \<open>\<open>xs[a:b]\<close> for \<open>0 \<le> a\<close>, \<open>0 \<le> b\<close>.\<close>
  "py_slice xs a b = drop (nat a) (take (nat b) xs)"

section \<open>Key handling (run, lines 119-131)\<close>

definition backspace :: "exercise \<Rightarrow> exercise" where
  \<comment> \<open>Lines 121-123, the branch taken for \<open>curses.KEY_BACKSPACE\<close> and 127.\<close>
  "backspace s =
     (if user_input s \<noteq> []
      then s\<lparr>user_input := butlast (user_input s), current_pos := current_pos s - 1\<rparr>
      else s)"

definition type_char :: "exercise \<Rightarrow> pychar \<Rightarrow> py_error + exercise" where
  \<comment> \<open>Lines 126-131, after \<open>char = chr(key)\<close>.\<close>
  "type_char s char =
     (let s1 = s\<lparr>user_input := user_input s @ [char]\<rparr> in
      case py_index (text_str s1) (current_pos s1) of
        Inl e \<Rightarrow> Inl e
      | Inr expected \<Rightarrow>
          let s2 = (if char = expected
                    then s1\<lparr>correct_chars := correct_chars s1 + 1\<rparr>
                    else s1\<lparr>wrong_chars := wrong_chars s1 + 1\<rparr>)
          in Inr (s2\<lparr>current_pos := current_pos s2 + 1\<rparr>))"

definition handle_key :: "exercise \<Rightarrow> int \<Rightarrow> py_error + exercise" where
  \<comment> \<open>Lines 119-131: what the loop does with a key that is not ESC.\<close>
  "handle_key s key =
     (if key = KEY_BACKSPACE \<or> key = 127 then Inr (backspace s)
      else case py_chr key of
             Inl e \<Rightarrow> Inl e
           | Inr char \<Rightarrow> type_char s char)"

section \<open>Drawing (lines 153-246)\<close>

text \<open>
  Of the drawing methods the model keeps what they compute from the exercise and every
  exception their own arithmetic and indexing can raise. The calls into curses
  (\<open>addstr\<close>, \<open>addch\<close>, \<open>clear\<close>) are taken to succeed, and the formatting of the
  numbers into strings is left out.
\<close>

record header =
  hdr_progress :: real
  hdr_elapsed :: real
  hdr_stats :: "(real \<times> real) option"
  hdr_page_info :: "(int \<times> int) option"

definition draw_header :: "exercise \<Rightarrow> real \<Rightarrow> py_error + header" where
  \<comment> \<open>Lines 153-174; \<open>now\<close> is the reading of \<open>time.time()\<close> on line 161.
      \<open>hdr_stats\<close> is the pair (speed, accuracy) of line 168, absent when the line is
      not drawn.\<close>
  "draw_header s now =
     (case py_truediv (real_of_int (current_pos s)) (real_of_int (total_chars s)) of
        Inl e \<Rightarrow> Inl e
      | Inr progress \<Rightarrow>
          let elapsed = (case start_time s of
                           None \<Rightarrow> 0
                         | Some b \<Rightarrow> if b \<noteq> 0 then now - b else 0)
          in case (if current_pos s > 0
                   then (case py_truediv (real_of_int (current_pos s) / 5) (elapsed / 60) of
                           Inl e \<Rightarrow> Inl e
                         | Inr speed \<Rightarrow>
                             Inr (Some (speed,
                                if current_pos s > 0
                                then real_of_int (correct_chars s) / real_of_int (current_pos s) * 100
                                else 0)))
                   else Inr None) of
               Inl e \<Rightarrow> Inl e
             | Inr stats \<Rightarrow>
                 Inr \<lparr> hdr_progress = progress, hdr_elapsed = elapsed, hdr_stats = stats,
                       hdr_page_info = (if total_pages s > 0
                                        then Some (current_page s + 1, total_pages s)
                                        else None) \<rparr>)"

definition draw_text :: "exercise \<Rightarrow> py_error + (pystr \<times> int \<times> int) option" where
  \<comment> \<open>Lines 177-185: the page and the range the method looks up. The colouring loop
      that follows (lines 191-237) catches \<open>curses.error\<close> and raises nothing else.\<close>
  "draw_text s =
     (if total_pages s = 0 then Inr None
      else case py_index (pages s) (current_page s) of
             Inl e \<Rightarrow> Inl e
           | Inr current_page_text \<Rightarrow>
               (case py_index (page_indices s) (current_page s) of
                  Inl e \<Rightarrow> Inl e
                | Inr rng \<Rightarrow> Inr (Some (current_page_text, rng))))"

definition draw_footer :: "exercise \<Rightarrow> string" where
  \<comment> \<open>Lines 240-246.\<close>
  "draw_footer s =
     (if current_page s < total_pages s - 1
      then ''Press ESC to quit. Press any key for next page when done''
      else ''Press ESC to quit'')"

definition redraw :: "exercise \<Rightarrow> real \<Rightarrow> py_error + unit" where
  \<comment> \<open>\<open>stdscr.clear(); draw_header; draw_text; draw_footer\<close>, as on lines 93-96.\<close>
  "redraw s now =
     (case draw_header s now of
        Inl e \<Rightarrow> Inl e
      | Inr _ \<Rightarrow> (case draw_text s of Inl e \<Rightarrow> Inl e | Inr _ \<Rightarrow> Inr ()))"

section \<open>The main loop (run, lines 99-140)\<close>

text \<open>
  The keyboard is a list of events, each the key \<open>getch\<close> returns paired with the clock
  reading at that moment; every \<open>time.time()\<close> until the next key returns that reading
  (\<open>now\<close>). \<open>getch\<close> blocks, so a session whose events are used up before the loop ends
  is \<open>Blocked\<close> in the state it waits in.
\<close>

datatype run_result = Returned bool exercise | Raised py_error | Blocked exercise

function main_loop :: "exercise \<Rightarrow> real \<Rightarrow> (real \<times> int) list \<Rightarrow> run_result" where
  "main_loop s now evs =
     (if current_pos s < total_chars s then
        (case py_index (page_indices s) (current_page s) of
           Inl e \<Rightarrow> Raised e
         | Inr rng \<Rightarrow>
             if current_pos s \<ge> snd rng then
               (if current_page s < total_pages s - 1 then
                  (case redraw (s\<lparr>current_page := current_page s + 1\<rparr>) now of
                     Inl e \<Rightarrow> Raised e
                   | Inr _ \<Rightarrow> main_loop (s\<lparr>current_page := current_page s + 1\<rparr>) now evs)
                else Returned True (s\<lparr>end_time := Some now\<rparr>))
             else
               (case evs of
                  [] \<Rightarrow> Blocked s
                | (t, key) # rest \<Rightarrow>
                    if key = 27 then Returned False (s\<lparr>end_time := Some t\<rparr>)
                    else (case handle_key s key of
                            Inl e \<Rightarrow> Raised e
                          | Inr s' \<Rightarrow>
                              (case redraw s' t of
                                 Inl e \<Rightarrow> Raised e
                               | Inr _ \<Rightarrow> main_loop s' t rest))))
      else Returned True (s\<lparr>end_time := Some now\<rparr>))"
  by pat_completeness auto
termination
  by (relation "measures [\<lambda>(s, now, evs). length evs,
                          \<lambda>(s, now, evs). nat (total_pages s - current_page s)]") auto

declare main_loop.simps [simp del]

definition run :: "exercise \<Rightarrow> int \<Rightarrow> int \<Rightarrow> real \<Rightarrow> (real \<times> int) list \<Rightarrow> run_result" where
  \<comment> \<open>Lines 48-140; \<open>height\<close> and \<open>width\<close> are what \<open>getmaxyx\<close> returns, \<open>t0\<close> the
      clock at line 51.\<close>
  "run s height width t0 evs =
     (case paginate (s\<lparr>start_time := Some t0, page_line_count := max 1 (height - 7)\<rparr>) width of
        Inl e \<Rightarrow> Raised e
      | Inr s' \<Rightarrow>
          (case redraw (s'\<lparr>current_page := 0\<rparr>) t0 of
             Inl e \<Rightarrow> Raised e
           | Inr _ \<Rightarrow> main_loop (s'\<lparr>current_page := 0\<rparr>) t0 evs))"

section \<open>The record and the entry point (lines 249-313)\<close>

record saved_record =
  rec_exercise :: string
  rec_duration :: real
  rec_total_chars :: int
  rec_correct_chars :: int
  rec_wrong_chars :: int
  rec_accuracy :: real
  rec_speed_wpm :: real

definition save_record :: "exercise \<Rightarrow> py_error + saved_record" where
  \<comment> \<open>Lines 249-265, without the \<open>date\<close> field and the file written.\<close>
  "save_record s =
     (case (end_time s, start_time s) of
        (Some e, Some b) \<Rightarrow>
          (case py_truediv (real_of_int (total_chars s) / 5) ((e - b) / 60) of
             Inl err \<Rightarrow> Inl err
           | Inr speed \<Rightarrow>
               Inr \<lparr> rec_exercise = exercise_name s, rec_duration = e - b,
                     rec_total_chars = total_chars s,
                     rec_correct_chars = correct_chars s,
                     rec_wrong_chars = wrong_chars s,
                     rec_accuracy = (if total_chars s > 0
                                     then real_of_int (correct_chars s) / real_of_int (total_chars s) * 100
                                     else 0),
                     rec_speed_wpm = speed \<rparr>)
      | _ \<Rightarrow> Inl TypeError)"

datatype main_result = Results saved_record | Canceled | Crashed py_error | Waiting

definition main :: "string \<Rightarrow> pystr list \<Rightarrow> int \<Rightarrow> int \<Rightarrow> real \<Rightarrow> (real \<times> int) list \<Rightarrow> main_result" where
  \<comment> \<open>Lines 304-313: \<open>Results\<close> is the record saved and shown, \<open>Canceled\<close> the branch
      that prints "Exercise canceled." and saves nothing.\<close>
  "main name ls height width t0 evs =
     (case run (init name ls) height width t0 evs of
        Returned completed s \<Rightarrow>
          if completed
          then (case save_record s of Inl e \<Rightarrow> Crashed e | Inr r \<Rightarrow> Results r)
          else Canceled
      | Raised e \<Rightarrow> Crashed e
      | Blocked s \<Rightarrow> Waiting)"

section \<open>Invariants of a running session\<close>

definition session_inv :: "exercise \<Rightarrow> bool" where
  \<comment> \<open>What \<open>run\<close> keeps true of the object: one entry of \<open>user_input\<close> per position,
      one range per page, \<open>total_chars\<close> the length of the text, a page index that
      counts from the front.\<close>
  "session_inv s \<longleftrightarrow>
     int (length (user_input s)) = current_pos s \<and> length (pages s) = length (page_indices s) \<and>
     total_chars s = int (length (text_str s)) \<and> 0 \<le> current_page s"

definition waiting :: "exercise \<Rightarrow> bool" where
  \<comment> \<open>The loop is at \<open>getch\<close> (line 112): not finished, no page turn due.\<close>
  "waiting s \<longleftrightarrow>
     current_pos s < total_chars s \<and>
     (case py_index (page_indices s) (current_page s) of
        Inl e \<Rightarrow> False
      | Inr rng \<Rightarrow> current_pos s < snd rng)"

section \<open>Evaluation on concrete inputs\<close>

lemmas eval_defs = run_def paginate_def lines_needed_def py_floordiv_def rstrip_nl_def init_def
  redraw_def draw_header_def draw_text_def py_truediv_def py_index_def handle_key_def
  backspace_def type_char_def py_chr_def KEY_BACKSPACE_def main_loop.simps Let_def
  main_def save_record_def str_of_def

section \<open>Pagination covers the text\<close>

lemma ranges_from_append:
  "ranges_from b (ps @ qs) = ranges_from b ps @ ranges_from (b + int (length (concat ps))) qs"
  by (induction ps arbitrary: b) (simp_all add: add.assoc)

lemma length_ranges_from: "length (ranges_from b ps) = length ps"
  by (induction ps arbitrary: b) simp_all

lemma ranges_from_nth:
  "i < length ps \<Longrightarrow>
   ranges_from b ps ! i =
     (b + int (length (concat (take i ps))), b + int (length (concat (take (Suc i) ps))))"
proof (induction ps arbitrary: b i)
  case Nil
  then show ?case by simp
next
  case (Cons p ps)
  show ?case
  proof (cases i)
    case 0
    then show ?thesis by simp
  next
    case (Suc j)
    with Cons.prems have "j < length ps" by simp
    from Cons.IH [OF this, of "b + int (length p)"] Suc show ?thesis
      by (simp add: add.assoc)
  qed
qed

lemma nth_as_slice:
  "i < length ps \<Longrightarrow>
   ps ! i = drop (length (concat (take i ps))) (take (length (concat (take (Suc i) ps))) (concat ps))"
proof (induction ps arbitrary: i)
  case Nil
  then show ?case by simp
next
  case (Cons p ps)
  show ?case
  proof (cases i)
    case 0
    then show ?thesis by simp
  next
    case (Suc j)
    with Cons.prems have "j < length ps" by simp
    from Cons.IH [OF this] Suc show ?thesis by simp
  qed
qed

lemma lines_needed_ok: "width \<noteq> 0 \<Longrightarrow> \<exists>n. lines_needed line width = Inr n"
  by (simp add: lines_needed_def py_floordiv_def)

lemma paginate_lines_ok:
  "width \<noteq> 0 \<Longrightarrow> \<exists>r. paginate_lines width plc ls pgs idx cur chars lc = Inr r"
proof (induction ls arbitrary: pgs idx cur chars lc)
  case Nil
  then show ?case by simp
next
  case (Cons line rest)
  from lines_needed_ok [OF Cons.prems] obtain n where n: "lines_needed line width = Inr n"
    by blast
  show ?case using Cons.IH [OF Cons.prems] by (simp add: n)
qed

text \<open>
  The loop's invariant, with \<open>b\<close> the offset at which the page being filled starts: the
  pages closed so far are laid end to end from \<open>b\<close>, and no character is lost.
\<close>

lemma paginate_lines_inv:
  "paginate_lines width plc ls pgs idx cur chars lc = Inr (pgs', idx', cur', chars') \<Longrightarrow>
   chars = b + int (length (concat cur)) \<Longrightarrow>
   \<exists>new. pgs' = pgs @ new \<and> idx' = idx @ ranges_from b new \<and>
         chars' = b + int (length (concat new)) + int (length (concat cur')) \<and>
         concat new @ concat cur' = concat cur @ concat ls \<and>
         (cur' = [] \<longrightarrow> cur = [] \<and> ls = [])"
proof (induction ls arbitrary: pgs idx cur chars lc b)
  case Nil
  then show ?case by auto
next
  case (Cons line rest)
  from Cons.prems(1) obtain n where n: "lines_needed line width = Inr n"
    by (auto split: sum.splits)
  show ?case
  proof (cases "lc + n > plc \<and> lc > 0")
    case True
    with Cons.prems(1) n have run:
      "paginate_lines width plc rest (pgs @ [concat cur])
         (idx @ [(chars - int (length (concat cur)), chars)]) [line]
         (chars + int (length line)) n = Inr (pgs', idx', cur', chars')"
      by simp
    have "chars + int (length line) = chars + int (length (concat [line]))" by simp
    from Cons.IH [OF run this] obtain new where new:
      "pgs' = (pgs @ [concat cur]) @ new"
      "idx' = (idx @ [(chars - int (length (concat cur)), chars)]) @ ranges_from chars new"
      "chars' = chars + int (length (concat new)) + int (length (concat cur'))"
      "concat new @ concat cur' = concat [line] @ concat rest"
      "cur' = [] \<longrightarrow> [line] = [] \<and> rest = []"
      by blast
    let ?new = "concat cur # new"
    have "pgs' = pgs @ ?new" using new(1) by simp
    moreover have "idx' = idx @ ranges_from b ?new"
      using new(2) Cons.prems(2) by simp
    moreover have "chars' = b + int (length (concat ?new)) + int (length (concat cur'))"
      using new(3) Cons.prems(2) by simp
    moreover have "concat ?new @ concat cur' = concat cur @ concat (line # rest)"
      using new(4) by simp
    moreover have "cur' \<noteq> []" using new(5) by auto
    ultimately show ?thesis by blast
  next
    case False
    with Cons.prems(1) n have run:
      "paginate_lines width plc rest pgs idx (cur @ [line])
         (chars + int (length line)) (lc + n) = Inr (pgs', idx', cur', chars')"
      by auto
    have "chars + int (length line) = b + int (length (concat (cur @ [line])))"
      using Cons.prems(2) by simp
    from Cons.IH [OF run this] obtain new where new:
      "pgs' = pgs @ new"
      "idx' = idx @ ranges_from b new"
      "chars' = b + int (length (concat new)) + int (length (concat cur'))"
      "concat new @ concat cur' = concat (cur @ [line]) @ concat rest"
      "cur' = [] \<longrightarrow> cur @ [line] = [] \<and> rest = []"
      by blast
    have "concat new @ concat cur' = concat cur @ concat (line # rest)"
      using new(4) by simp
    moreover have "cur' \<noteq> []" using new(5) by auto
    ultimately show ?thesis using new(1-3) by blast
  qed
qed

lemma paginate_result:
  assumes run: "paginate s width = Inr s'" and fresh: "page_indices s = []"
  shows "\<exists>P. s' = s\<lparr>pages := P, page_indices := ranges_from 0 P, total_pages := int (length P)\<rparr> \<and>
             concat P = concat (lines s) \<and> (P = [] \<longleftrightarrow> lines s = [])"
proof -
  from run obtain pgs' idx' cur' chars' where loop:
    "paginate_lines width (page_line_count s) (lines s) [] [] [] 0 0 = Inr (pgs', idx', cur', chars')"
    by (auto simp: paginate_def fresh split: sum.splits)
  have "(0::int) = 0 + int (length (concat ([]::pystr list)))" by simp
  from paginate_lines_inv [OF loop this] obtain new where new:
    "pgs' = new" "idx' = ranges_from 0 new"
    "chars' = int (length (concat new)) + int (length (concat cur'))"
    "concat new @ concat cur' = concat (lines s)"
    "cur' = [] \<longrightarrow> lines s = []"
    by auto
  show ?thesis
  proof (cases "cur' = []")
    case True
    with new(5) have "lines s = []" by simp
    with loop have "pgs' = []" "idx' = []" by simp_all
    with run loop True \<open>lines s = []\<close> show ?thesis
      by (intro exI [of _ "[]"]) (simp add: paginate_def fresh)
  next
    case False
    let ?P = "new @ [concat cur']"
    have idx: "idx' @ [(chars' - int (length (concat cur')), chars')] = ranges_from 0 ?P"
      by (simp add: new(2,3) ranges_from_append)
    have "s' = s\<lparr>pages := ?P, page_indices := ranges_from 0 ?P, total_pages := int (length ?P)\<rparr>"
      using run loop False idx by (simp add: paginate_def fresh new(1))
    moreover have "concat ?P = concat (lines s)" using new(4) by simp
    moreover have "lines s \<noteq> []" using new(4) False loop by auto
    ultimately show ?thesis by (intro exI [of _ ?P]) simp
  qed
qed

lemma paginate_ok: "width \<noteq> 0 \<Longrightarrow> \<exists>s'. paginate s width = Inr s'"
proof -
  assume "width \<noteq> 0"
  from paginate_lines_ok [OF this] obtain r where
    "paginate_lines width (page_line_count s) (lines s) [] (page_indices s) [] 0 0 = Inr r"
    by blast
  then show ?thesis by (cases r) (simp add: paginate_def Let_def split: prod.splits)
qed

text \<open>
  Claim C3: for every reference text (a sequence of lines) and every viewport width and
  row count, pagination of a fresh exercise succeeds and gives one offset range per
  page; the first range starts at 0, each range ends where the next one starts, no
  range ends before it starts, the last range ends at \<open>total_chars\<close>, every page is the
  slice of the text its range names, and the pages concatenated in order are the text.
  There is a page exactly when there is a line. The width is the column count
  \<open>getmaxyx\<close> reports (line 54), which is never 0; line 66 divides by it.
\<close>

theorem paginate_partitions_text:
  assumes "width \<noteq> 0"
  shows "\<exists>s'. paginate ((init name ls)\<lparr>page_line_count := rows\<rparr>) width = Inr s' \<and>
           text_str s' = concat ls \<and> total_chars s' = int (length (concat ls)) \<and>
           length (page_indices s') = length (pages s') \<and>
           (pages s' = [] \<longleftrightarrow> ls = []) \<and>
           (page_indices s' \<noteq> [] \<longrightarrow> fst (hd (page_indices s')) = 0) \<and>
           (\<forall>i. Suc i < length (page_indices s') \<longrightarrow>
                  snd (page_indices s' ! i) = fst (page_indices s' ! Suc i)) \<and>
           (\<forall>i < length (page_indices s').
                  fst (page_indices s' ! i) \<le> snd (page_indices s' ! i)) \<and>
           (page_indices s' \<noteq> [] \<longrightarrow> snd (last (page_indices s')) = total_chars s') \<and>
           (\<forall>i < length (pages s').
                  pages s' ! i =
                    py_slice (text_str s') (fst (page_indices s' ! i)) (snd (page_indices s' ! i))) \<and>
           concat (pages s') = text_str s'"
proof -
  let ?s = "(init name ls)\<lparr>page_line_count := rows\<rparr>"
  have fresh: "page_indices ?s = []" by (simp add: init_def)
  from paginate_ok [OF assms] obtain s' where run: "paginate ?s width = Inr s'" by blast
  from paginate_result [OF run fresh] obtain P where P:
    "s' = ?s\<lparr>pages := P, page_indices := ranges_from 0 P, total_pages := int (length P)\<rparr>"
    "concat P = concat ls" "P = [] \<longleftrightarrow> ls = []"
    by (auto simp: init_def)
  have sel: "pages s' = P" "page_indices s' = ranges_from 0 P"
    "text_str s' = concat ls" "total_chars s' = int (length (concat ls))"
    by (simp_all add: P(1) init_def)
  have len: "length (ranges_from 0 P) = length P" by (rule length_ranges_from)
  have first: "ranges_from 0 P \<noteq> [] \<longrightarrow> fst (hd (ranges_from 0 P)) = 0"
    by (cases P) simp_all
  have contig: "\<forall>i. Suc i < length (ranges_from 0 P) \<longrightarrow>
                  snd (ranges_from 0 P ! i) = fst (ranges_from 0 P ! Suc i)"
    by (simp add: len ranges_from_nth)
  have ordered: "\<forall>i < length (ranges_from 0 P). fst (ranges_from 0 P ! i) \<le> snd (ranges_from 0 P ! i)"
    by (simp add: len ranges_from_nth take_Suc_conv_app_nth)
  have final: "ranges_from 0 P \<noteq> [] \<longrightarrow> snd (last (ranges_from 0 P)) = int (length (concat ls))"
  proof
    assume nonempty: "ranges_from 0 P \<noteq> []"
    then have ne: "P \<noteq> []" by auto
    have "last (ranges_from 0 P) = ranges_from 0 P ! (length P - 1)"
      using nonempty by (simp add: last_conv_nth len)
    also have "\<dots> = (int (length (concat (take (length P - 1) P))),
                      int (length (concat (take (Suc (length P - 1)) P))))"
      using ne by (simp add: ranges_from_nth)
    finally show "snd (last (ranges_from 0 P)) = int (length (concat ls))"
      using ne P(2) by simp
  qed
  have slices: "\<forall>i < length P. P ! i =
      py_slice (concat ls) (fst (ranges_from 0 P ! i)) (snd (ranges_from 0 P ! i))"
    using nth_as_slice [of _ P] by (simp add: py_slice_def ranges_from_nth P(2))
  show ?thesis
    using run len first contig ordered final slices P(2,3)
    by (intro exI [of _ s']) (simp only: sel simp_thms)
qed

theorem paginate_partitions_text_witness:
  "(80::int) \<noteq> 0 \<and>
   (\<exists>s'. paginate ((init ''demo'' [str_of ''ab'' @ [10], str_of ''cd''])\<lparr>page_line_count := 1\<rparr>) 80
           = Inr s' \<and>
         pages s' = [str_of ''ab'' @ [10], str_of ''cd''] \<and> page_indices s' = [(0, 3), (3, 5)] \<and>
         snd (last (page_indices s')) = total_chars s' \<and>
         concat (pages s') = text_str s')"
proof -
  have w: "(80::int) \<noteq> 0" by simp
  from paginate_partitions_text [OF w, where name = "''demo''"
      and ls = "[str_of ''ab'' @ [10], str_of ''cd'']" and rows = 1]
  obtain s' where s':
    "paginate ((init ''demo'' [str_of ''ab'' @ [10], str_of ''cd''])\<lparr>page_line_count := 1\<rparr>) 80
       = Inr s'"
    "page_indices s' \<noteq> [] \<longrightarrow> snd (last (page_indices s')) = total_chars s'"
    "concat (pages s') = text_str s'"
    by blast
  from s'(1) have "pages s' = [str_of ''ab'' @ [10], str_of ''cd'']"
    "page_indices s' = [(0, 3), (3, 5)]"
    by (auto simp: eval_defs)
  with s' w show ?thesis by auto
qed

section \<open>What one key does to the object\<close>

lemma backspace_fields:
  "current_page (backspace s) = current_page s"
  "page_indices (backspace s) = page_indices s"
  "pages (backspace s) = pages s"
  "total_pages (backspace s) = total_pages s"
  "total_chars (backspace s) = total_chars s"
  "correct_chars (backspace s) = correct_chars s"
  "wrong_chars (backspace s) = wrong_chars s"
  "text_str (backspace s) = text_str s"
  by (simp_all add: backspace_def)

lemma type_char_fields:
  assumes "type_char s c = Inr s'"
  shows "current_page s' = current_page s" "page_indices s' = page_indices s"
    "pages s' = pages s" "total_pages s' = total_pages s" "total_chars s' = total_chars s"
    "current_pos s' = current_pos s + 1" "user_input s' = user_input s @ [c]"
    "text_str s' = text_str s"
  using assms by (auto simp: type_char_def Let_def split: sum.splits if_splits)

lemma handle_key_fields:
  assumes "handle_key s key = Inr s'"
  shows "current_page s' = current_page s" "page_indices s' = page_indices s"
    "pages s' = pages s" "total_pages s' = total_pages s" "total_chars s' = total_chars s"
  using assms
  by (auto simp: handle_key_def backspace_fields type_char_fields split: if_splits sum.splits)

lemma handle_key_inv:
  assumes "handle_key s key = Inr s'" "session_inv s"
  shows "session_inv s'"
proof (cases "key = KEY_BACKSPACE \<or> key = 127")
  case True
  with assms(1) have "s' = backspace s" by (simp add: handle_key_def)
  with assms(2) show ?thesis
    by (cases "user_input s" rule: rev_cases) (auto simp: session_inv_def backspace_def)
next
  case False
  with assms(1) obtain c where "type_char s c = Inr s'"
    by (auto simp: handle_key_def split: sum.splits)
  from type_char_fields [OF this] assms(2) show ?thesis
    by (simp add: session_inv_def)
qed

text \<open>
  Along the loop the invariant is kept, the page index does not decrease, a session that
  is \<open>Blocked\<close> waits at \<open>getch\<close>, and a session that returned \<open>False\<close> has its
  \<open>end_time\<close> set before the text was finished.
\<close>

lemma main_loop_result:
  "main_loop s now evs = r \<Longrightarrow> r = Blocked s1 \<or> r = Returned b s1 \<Longrightarrow>
   (session_inv s \<longrightarrow> session_inv s1) \<and> current_page s \<le> current_page s1 \<and>
   (r = Blocked s1 \<longrightarrow> waiting s1) \<and>
   (r = Returned False s1 \<longrightarrow> end_time s1 \<noteq> None \<and> current_pos s1 < total_chars s1)"
proof (induction s now evs arbitrary: r rule: main_loop.induct)
  case (1 s now evs)
  show ?case
  proof (cases "current_pos s < total_chars s")
    case False
    with "1.prems" show ?thesis
      by (auto simp: main_loop.simps [of s] session_inv_def)
  next
    case active: True
    show ?thesis
    proof (cases "py_index (page_indices s) (current_page s)")
      case (Inl e)
      with active "1.prems" show ?thesis by (auto simp: main_loop.simps [of s])
    next
      case (Inr rng)
      show ?thesis
      proof (cases "current_pos s \<ge> snd rng")
        case past: True
        show ?thesis
        proof (cases "current_page s < total_pages s - 1")
          case False
          with active Inr past "1.prems" show ?thesis
            by (auto simp: main_loop.simps [of s] session_inv_def)
        next
          case more: True
          let ?s = "s\<lparr>current_page := current_page s + 1\<rparr>"
          from active Inr past more "1.prems" obtain u where
            u: "redraw ?s now = Inr u" and r: "main_loop ?s now evs = r"
            by (auto simp: main_loop.simps [of s] split: sum.splits)
          from "1.IH"(1) [OF active Inr past more u r "1.prems"(2)]
          show ?thesis by (auto simp: session_inv_def)
        qed
      next
        case False
        then have before: "\<not> snd rng \<le> current_pos s" by simp
        show ?thesis
        proof (cases evs)
          case Nil
          with active Inr before "1.prems" show ?thesis
            by (auto simp: main_loop.simps [of s] waiting_def)
        next
          case (Cons ev rest)
          obtain t key where ev: "ev = (t, key)" by (cases ev)
          show ?thesis
          proof (cases "key = 27")
            case True
            with active Inr before Cons ev "1.prems" show ?thesis
              by (auto simp: main_loop.simps [of s] session_inv_def)
          next
            case False
            with active Inr before Cons ev "1.prems" obtain s' u where
              hk: "handle_key s key = Inr s'" and u: "redraw s' t = Inr u"
              and r: "main_loop s' t rest = r"
              by (auto simp: main_loop.simps [of s] split: sum.splits)
            have ev': "(t, key) = (t, key)" ..
            from "1.IH"(2) [OF active Inr before Cons [unfolded ev] ev'[symmetric] False hk u r "1.prems"(2)]
            show ?thesis
              using handle_key_inv [OF hk] handle_key_fields(1) [OF hk] by auto
          qed
        qed
      qed
    qed
  qed
qed


text \<open>A session that waits for a key, given one more event.\<close>

lemma main_loop_one_more:
  "main_loop s now evs = Blocked s1 \<Longrightarrow>
   main_loop s now (evs @ [(t, key)]) =
     (if key = 27 then Returned False (s1\<lparr>end_time := Some t\<rparr>)
      else case handle_key s1 key of
             Inl e \<Rightarrow> Raised e
           | Inr s' \<Rightarrow> (case redraw s' t of Inl e \<Rightarrow> Raised e | Inr _ \<Rightarrow> main_loop s' t []))"
proof (induction s now evs rule: main_loop.induct)
  case (1 s now evs)
  from "1.prems" have active: "current_pos s < total_chars s"
    by (auto simp: main_loop.simps [of s] split: if_splits)
  from "1.prems" active obtain rng where Inr: "py_index (page_indices s) (current_page s) = Inr rng"
    by (auto simp: main_loop.simps [of s] split: sum.splits)
  show ?case
  proof (cases "current_pos s \<ge> snd rng")
    case past: True
    with "1.prems" active Inr have more: "current_page s < total_pages s - 1"
      by (auto simp: main_loop.simps [of s] split: if_splits)
    let ?s = "s\<lparr>current_page := current_page s + 1\<rparr>"
    from active Inr past more "1.prems" obtain u where
      u: "redraw ?s now = Inr u" and r: "main_loop ?s now evs = Blocked s1"
      by (auto simp: main_loop.simps [of s] split: sum.splits)
    from "1.IH"(1) [OF active Inr past more u r]
    show ?thesis using active Inr past more u
      by (subst main_loop.simps) simp
  next
    case False
    then have before: "\<not> snd rng \<le> current_pos s" by simp
    show ?thesis
    proof (cases evs)
      case Nil
      with active Inr before "1.prems" have "s1 = s"
        by (auto simp: main_loop.simps [of s])
      with Nil active Inr before show ?thesis
        by (subst main_loop.simps) simp
    next
      case (Cons ev rest)
      obtain t' key' where ev: "ev = (t', key')" by (cases ev)
      from active Inr before Cons ev "1.prems" have nesc: "key' \<noteq> 27"
        by (auto simp: main_loop.simps [of s])
      with active Inr before Cons ev "1.prems" obtain s' u where
        hk: "handle_key s key' = Inr s'" and u: "redraw s' t' = Inr u"
        and r: "main_loop s' t' rest = Blocked s1"
        by (auto simp: main_loop.simps [of s] split: sum.splits)
      from "1.IH"(2) [OF active Inr before Cons [unfolded ev] refl nesc hk u r]
      show ?thesis using active Inr before Cons ev nesc hk u
        by (subst main_loop.simps) simp
    qed
  qed
qed


lemma run_as_main_loop:
  assumes "run (init name ls) height width t0 evs = r" "r = Blocked s1 \<or> r = Returned b s1"
  shows "\<exists>s. session_inv s \<and> (\<forall>evs'. run (init name ls) height width t0 evs' = main_loop s t0 evs')"
proof -
  let ?s = "(init name ls)\<lparr>start_time := Some t0, page_line_count := max 1 (height - 7)\<rparr>"
  from assms obtain s' where pg: "paginate ?s width = Inr s'"
    by (auto simp: run_def split: sum.splits)
  from assms pg obtain u where rd: "redraw (s'\<lparr>current_page := 0\<rparr>) t0 = Inr u"
    by (auto simp: run_def split: sum.splits)
  have fresh: "page_indices ?s = []" by (simp add: init_def)
  from paginate_result [OF pg fresh] obtain P where
    "s' = ?s\<lparr>pages := P, page_indices := ranges_from 0 P, total_pages := int (length P)\<rparr>"
    by blast
  then have "session_inv (s'\<lparr>current_page := 0\<rparr>)"
    by (simp add: session_inv_def init_def length_ranges_from)
  moreover have "\<forall>evs'. run (init name ls) height width t0 evs' = main_loop (s'\<lparr>current_page := 0\<rparr>) t0 evs'"
    using pg rd by (simp add: run_def)
  ultimately show ?thesis by blast
qed

lemma redraw_at_start:
  assumes "waiting s" "session_inv s" "current_pos s = 0"
  shows "\<exists>u. redraw s t = Inr u"
proof -
  from assms(1) obtain rng where rng: "py_index (page_indices s) (current_page s) = Inr rng"
    and tc: "0 < total_chars s"
    using assms(3) by (auto simp: waiting_def split: sum.splits)
  from rng assms(2) obtain pt where "py_index (pages s) (current_page s) = Inr pt"
    by (auto simp: py_index_def session_inv_def split: if_splits)
  with rng tc assms(3) show ?thesis
    by (simp add: redraw_def draw_header_def draw_text_def py_truediv_def)
qed



text \<open>
  Page turns with no key left: the loop moves from page to page while the position is
  at or past the page's end, and stops at the first page whose end lies beyond it.
\<close>

lemma py_index_front:
  "py_index xs i = Inr r \<Longrightarrow> 0 \<le> i \<Longrightarrow> r = xs ! nat i \<and> i < int (length xs)"
  by (auto simp: py_index_def split: if_splits)

lemma main_loop_turns:
  "main_loop s now evs = Blocked s2 \<Longrightarrow> evs = [] \<Longrightarrow> 0 \<le> current_page s \<Longrightarrow>
   s2 = s\<lparr>current_page := current_page s2\<rparr> \<and> current_page s \<le> current_page s2 \<and>
   (\<forall>j. current_page s \<le> j \<and> j < current_page s2 \<longrightarrow>
          snd (page_indices s ! nat j) \<le> current_pos s) \<and>
   current_page s2 < int (length (page_indices s)) \<and>
   current_pos s < snd (page_indices s ! nat (current_page s2))"
proof (induction s now evs rule: main_loop.induct)
  case (1 s now evs)
  from "1.prems" have active: "current_pos s < total_chars s"
    by (auto simp: main_loop.simps [of s] split: if_splits)
  from "1.prems" active obtain rng where Inr: "py_index (page_indices s) (current_page s) = Inr rng"
    by (auto simp: main_loop.simps [of s] split: sum.splits)
  from py_index_front [OF Inr "1.prems"(3)]
  have rng: "rng = page_indices s ! nat (current_page s)"
    and inside: "current_page s < int (length (page_indices s))" by simp_all
  show ?case
  proof (cases "current_pos s \<ge> snd rng")
    case past: True
    with "1.prems" active Inr have turn: "current_page s < total_pages s - 1"
      by (auto simp: main_loop.simps [of s] split: if_splits)
    let ?s = "s\<lparr>current_page := current_page s + 1\<rparr>"
    from active Inr past turn "1.prems" obtain u where
      u: "redraw ?s now = Inr u" and r: "main_loop ?s now evs = Blocked s2"
      by (auto simp: main_loop.simps [of s] split: sum.splits)
    have nonneg: "0 \<le> current_page ?s" using "1.prems"(3) by simp
    from "1.IH"(1) [OF active Inr past turn u r "1.prems"(2) nonneg]
    have ih: "s2 = ?s\<lparr>current_page := current_page s2\<rparr>"
      "current_page s + 1 \<le> current_page s2"
      "\<forall>j. current_page s + 1 \<le> j \<and> j < current_page s2 \<longrightarrow>
            snd (page_indices s ! nat j) \<le> current_pos s"
      "current_page s2 < int (length (page_indices s))"
      "current_pos s < snd (page_indices s ! nat (current_page s2))"
      by simp_all
    have "snd (page_indices s ! nat j) \<le> current_pos s"
      if "current_page s \<le> j \<and> j < current_page s2" for j
    proof (cases "j = current_page s")
      case True
      with past rng show ?thesis by simp
    next
      case False
      with that ih(3) show ?thesis by simp
    qed
    moreover from ih(1) have "s2 = s\<lparr>current_page := current_page s2\<rparr>" by simp
    ultimately show ?thesis using ih(2,4,5) by simp
  next
    case False
    then have before: "\<not> snd rng \<le> current_pos s" by simp
    with active Inr "1.prems" have "s2 = s"
      by (auto simp: main_loop.simps [of s])
    with before rng inside show ?thesis by simp
  qed
qed

lemma one_more_event:
  assumes blocked: "main_loop s0 t0 evs = Blocked s" and inv: "session_inv s0"
    and after: "main_loop s0 t0 (evs @ [(t, key)]) = Blocked s2"
  shows "key \<noteq> 27 \<and>
         (\<exists>s'. handle_key s key = Inr s' \<and> s2 = s'\<lparr>current_page := current_page s2\<rparr> \<and>
               current_page s \<le> current_page s2 \<and>
               (\<forall>j. current_page s \<le> j \<and> j < current_page s2 \<longrightarrow>
                      snd (page_indices s ! nat j) \<le> current_pos s') \<and>
               current_page s2 < int (length (page_indices s)) \<and>
               current_pos s' < snd (page_indices s ! nat (current_page s2)))"
proof -
  from main_loop_result [OF blocked] inv have sinv: "session_inv s" by simp
  from main_loop_one_more [OF blocked, of t key] after
  have nesc: "key \<noteq> 27" by auto
  with main_loop_one_more [OF blocked, of t key] after obtain s' where
    hk: "handle_key s key = Inr s'" and rest: "main_loop s' t [] = Blocked s2"
    by (auto split: sum.splits)
  from handle_key_fields [OF hk] sinv have nonneg: "0 \<le> current_page s'"
    and same: "current_page s' = current_page s" "page_indices s' = page_indices s"
    by (simp_all add: session_inv_def)
  from main_loop_turns [OF rest refl nonneg] nesc hk same show ?thesis by auto
qed


lemma type_then_backspace:
  assumes "0 \<le> current_pos s" "current_pos s < int (length (text_str s))"
  shows "\<exists>s1. type_char s c = Inr s1 \<and>
           backspace s1 = s\<lparr>correct_chars := correct_chars s1, wrong_chars := wrong_chars s1\<rparr> \<and>
           correct_chars s1 + wrong_chars s1 = correct_chars s + wrong_chars s + 1"
  using assms by (simp add: type_char_def py_index_def Let_def backspace_def)



section \<open>The counters and backspace\<close>

text \<open>
  Claim C1: for every reference text and every sequence of type_char and backspace
  events that never backspaces at position 0, \<open>correct_count + wrong_count = position\<close>
  holds after every event. The code at lines 121-123 takes the character back and
  decrements the position, and leaves both counters as they are: on the text "ab",
  typing 'a' and then backspace leaves the session waiting at position 0 with
  \<open>correct_chars = 1\<close>, so the sum of the counters is 1 where the position is 0.
\<close>

theorem backspace_breaks_counter_sum:
  "\<exists>s. run (init ''demo'' [str_of ''ab'']) 24 80 100 [(101, of_char CHR ''a''), (102, 127)]
          = Blocked s \<and>
       current_pos s = 0 \<and> user_input s = [] \<and> correct_chars s = 1 \<and> wrong_chars s = 0 \<and>
       correct_chars s + wrong_chars s \<noteq> current_pos s"
proof -
  have "run (init ''demo'' [str_of ''ab'']) 24 80 100 [(101, of_char CHR ''a''), (102, 127)] =
        Blocked ((init ''demo'' [str_of ''ab''])
                   \<lparr>start_time := Some 100, page_line_count := 17, pages := [str_of ''ab''],
                    page_indices := [(0, 2)], total_pages := 1, correct_chars := 1\<rparr>)"
    by (simp add: eval_defs)
  then show ?thesis by (simp add: init_def)
qed

text \<open>
  Claim C2: backspace immediately after type_char(c) restores position, correct_count
  and wrong_count to their values before the type_char. In the code the position and
  the typed characters are restored and the counter type_char incremented stays
  incremented: on the fresh exercise "ab", key 'a' followed by key 127 gives the fresh
  exercise with \<open>correct_chars = 1\<close>, where it was 0.
\<close>

theorem backspace_does_not_undo_counter:
  "\<exists>s1. handle_key (init ''demo'' [str_of ''ab'']) (of_char CHR ''a'') = Inr s1 \<and>
        correct_chars (init ''demo'' [str_of ''ab'']) = 0 \<and> correct_chars s1 = 1 \<and>
        handle_key s1 127 = Inr ((init ''demo'' [str_of ''ab''])\<lparr>correct_chars := 1\<rparr>)"
proof -
  have pos: "0 \<le> current_pos (init ''demo'' [str_of ''ab''])"
    "current_pos (init ''demo'' [str_of ''ab'']) < int (length (text_str (init ''demo'' [str_of ''ab''])))"
    by (simp_all add: init_def str_of_def)
  from type_then_backspace [OF pos, of 97] obtain s1 where s1:
    "type_char (init ''demo'' [str_of ''ab'']) 97 = Inr s1"
    "backspace s1 = (init ''demo'' [str_of ''ab''])\<lparr>correct_chars := correct_chars s1,
                                                       wrong_chars := wrong_chars s1\<rparr>"
    by blast
  from s1(1) have cnt: "correct_chars s1 = 1" "wrong_chars s1 = 0"
    by (auto simp: eval_defs)
  have "handle_key (init ''demo'' [str_of ''ab'']) (of_char CHR ''a'') = Inr s1"
    using s1(1) by (simp add: handle_key_def py_chr_def KEY_BACKSPACE_def)
  moreover have "handle_key s1 127 = Inr ((init ''demo'' [str_of ''ab''])\<lparr>correct_chars := 1\<rparr>)"
    by (simp add: handle_key_def s1(2) cnt) (simp add: init_def)
  ultimately show ?thesis using cnt by (intro exI [of _ s1]) (simp add: init_def)
qed

text \<open>
  Claim C9: in every session state with position 0 a backspace event is a no-op. For
  every state in which a session started by \<open>run\<close> waits for a key at position 0, the
  backspace branch returns the state itself, and the session given either backspace key
  waits in that same state: position, typed characters and both counters are unchanged.
\<close>

theorem backspace_at_start_is_noop:
  assumes "run (init name ls) height width t0 evs = Blocked s" "current_pos s = 0"
  shows "backspace s = s \<and>
         run (init name ls) height width t0 (evs @ [(t, KEY_BACKSPACE)]) = Blocked s \<and>
         run (init name ls) height width t0 (evs @ [(t, 127)]) = Blocked s"
proof -
  from run_as_main_loop [OF assms(1)] obtain s0 where s0: "session_inv s0"
    "\<And>evs'. run (init name ls) height width t0 evs' = main_loop s0 t0 evs'"
    by blast
  from assms s0(2) have blocked: "main_loop s0 t0 evs = Blocked s" by simp
  from main_loop_result [OF blocked] s0(1) have w: "waiting s" and inv: "session_inv s" by simp_all
  from inv assms(2) have noop: "backspace s = s" by (simp add: session_inv_def backspace_def)
  from redraw_at_start [OF w inv assms(2)] obtain u where u: "redraw s t = Inr u" by blast
  from w have still: "main_loop s t [] = Blocked s"
    by (subst main_loop.simps) (auto simp: waiting_def split: sum.splits)
  have "main_loop s0 t0 (evs @ [(t, KEY_BACKSPACE)]) = Blocked s"
    using main_loop_one_more [OF blocked, of t KEY_BACKSPACE] noop u still
    by (simp add: handle_key_def KEY_BACKSPACE_def)
  moreover have "main_loop s0 t0 (evs @ [(t, 127)]) = Blocked s"
    using main_loop_one_more [OF blocked, of t 127] noop u still
    by (simp add: handle_key_def)
  ultimately show ?thesis using noop by (simp add: s0(2))
qed

theorem backspace_at_start_is_noop_witness:
  "run (init ''demo'' [str_of ''ab'']) 24 80 100 [] =
     Blocked ((init ''demo'' [str_of ''ab''])
                \<lparr>start_time := Some 100, page_line_count := 17, pages := [str_of ''ab''],
                 page_indices := [(0, 2)], total_pages := 1\<rparr>) \<and>
   current_pos ((init ''demo'' [str_of ''ab''])
                \<lparr>start_time := Some 100, page_line_count := 17, pages := [str_of ''ab''],
                 page_indices := [(0, 2)], total_pages := 1\<rparr>) = 0 \<and>
   run (init ''demo'' [str_of ''ab'']) 24 80 100 ([] @ [(101, KEY_BACKSPACE)]) =
     Blocked ((init ''demo'' [str_of ''ab''])
                \<lparr>start_time := Some 100, page_line_count := 17, pages := [str_of ''ab''],
                 page_indices := [(0, 2)], total_pages := 1\<rparr>)"
proof -
  let ?s = "(init ''demo'' [str_of ''ab''])
              \<lparr>start_time := Some 100, page_line_count := 17, pages := [str_of ''ab''],
               page_indices := [(0, 2)], total_pages := 1\<rparr>"
  have h: "run (init ''demo'' [str_of ''ab'']) 24 80 100 [] = Blocked ?s"
    by (simp add: eval_defs)
  have z: "current_pos ?s = 0" by (simp add: init_def)
  from backspace_at_start_is_noop [OF h z, of 101] h z show ?thesis by blast
qed


section \<open>Pages and the position\<close>




section \<open>Keys that are typed\<close>

text \<open>
  Claim C7: in an active state (\<open>0 \<le> position < total_chars\<close>, \<open>total_chars\<close> the length
  of the text) type_char(c) appends \<open>c\<close> to the typed characters, increments
  \<open>correct_chars\<close> when \<open>c\<close> is the reference character at the position and
  \<open>wrong_chars\<close> otherwise, and increments the position; every state in which a session
  started by \<open>run\<close> waits for a key is such an active state; and on the text "abc", with
  any window whose width is not 0 and a clock that has left its start reading, the keys
  'a', 'x', 'c' end the session completed with 2 correct, 1 wrong, position 3.
\<close>

theorem type_char_judges:
  "(0 \<le> current_pos s \<and> current_pos s < total_chars s \<and>
    total_chars s = int (length (text_str s)) \<longrightarrow>
      type_char s c =
        Inr (if c = text_str s ! nat (current_pos s)
             then s\<lparr>user_input := user_input s @ [c], correct_chars := correct_chars s + 1,
                    current_pos := current_pos s + 1\<rparr>
             else s\<lparr>user_input := user_input s @ [c], wrong_chars := wrong_chars s + 1,
                    current_pos := current_pos s + 1\<rparr>)) \<and>
   (run (init name ls) height width t0 evs = Blocked s \<longrightarrow>
      0 \<le> current_pos s \<and> current_pos s < total_chars s \<and>
      total_chars s = int (length (text_str s))) \<and>
   (t0 \<noteq> 0 \<and> t1 \<noteq> t0 \<and> t2 \<noteq> t0 \<and> t3 \<noteq> t0 \<and> width \<noteq> 0 \<longrightarrow>
      run (init name [str_of ''abc'']) height width t0
          [(t1, of_char CHR ''a''), (t2, of_char CHR ''x''), (t3, of_char CHR ''c'')] =
        Returned True
          ((init name [str_of ''abc''])
             \<lparr>correct_chars := 2, wrong_chars := 1, current_pos := 3,
              user_input := str_of ''axc'', start_time := Some t0, end_time := Some t3,
              page_line_count := max 1 (height - 7), pages := [str_of ''abc''],
              page_indices := [(0, 3)], total_pages := 1\<rparr>))"
proof -
  have judged: "type_char s c =
        Inr (if c = text_str s ! nat (current_pos s)
             then s\<lparr>user_input := user_input s @ [c], correct_chars := correct_chars s + 1,
                    current_pos := current_pos s + 1\<rparr>
             else s\<lparr>user_input := user_input s @ [c], wrong_chars := wrong_chars s + 1,
                    current_pos := current_pos s + 1\<rparr>)"
    if "0 \<le> current_pos s \<and> current_pos s < total_chars s \<and>
        total_chars s = int (length (text_str s))"
    using that by (simp add: type_char_def py_index_def Let_def)
  have active: "0 \<le> current_pos s \<and> current_pos s < total_chars s \<and>
      total_chars s = int (length (text_str s))"
    if blocked: "run (init name ls) height width t0 evs = Blocked s"
  proof -
    from run_as_main_loop [OF blocked] obtain s0 where s0: "session_inv s0"
      "\<And>evs'. run (init name ls) height width t0 evs' = main_loop s0 t0 evs'"
      by blast
    from blocked s0(2) have loop: "main_loop s0 t0 evs = Blocked s" by simp
    from main_loop_result [OF loop] s0(1) have "waiting s" "session_inv s" by simp_all
    then show ?thesis by (auto simp: waiting_def session_inv_def)
  qed
  have scenario: "run (init name [str_of ''abc'']) height width t0
          [(t1, of_char CHR ''a''), (t2, of_char CHR ''x''), (t3, of_char CHR ''c'')] =
        Returned True
          ((init name [str_of ''abc''])
             \<lparr>correct_chars := 2, wrong_chars := 1, current_pos := 3,
              user_input := str_of ''axc'', start_time := Some t0, end_time := Some t3,
              page_line_count := max 1 (height - 7), pages := [str_of ''abc''],
              page_indices := [(0, 3)], total_pages := 1\<rparr>)"
    if "t0 \<noteq> 0 \<and> t1 \<noteq> t0 \<and> t2 \<noteq> t0 \<and> t3 \<noteq> t0 \<and> width \<noteq> 0"
    using that by (simp add: eval_defs)
  from judged active scenario show ?thesis by blast
qed

theorem type_char_judges_witness:
  "(0 \<le> current_pos (init ''demo'' [str_of ''abc'']) \<and>
    current_pos (init ''demo'' [str_of ''abc'']) < total_chars (init ''demo'' [str_of ''abc'']) \<and>
    total_chars (init ''demo'' [str_of ''abc'']) =
      int (length (text_str (init ''demo'' [str_of ''abc''])))) \<and>
   type_char (init ''demo'' [str_of ''abc'']) 97 =
     Inr ((init ''demo'' [str_of ''abc''])
            \<lparr>user_input := [97], correct_chars := 1, current_pos := 1\<rparr>) \<and>
   run (init ''demo'' [str_of ''abc'']) 24 80 100 [] =
     Blocked ((init ''demo'' [str_of ''abc''])
                \<lparr>start_time := Some 100, page_line_count := 17, pages := [str_of ''abc''],
                 page_indices := [(0, 3)], total_pages := 1\<rparr>) \<and>
   current_pos ((init ''demo'' [str_of ''abc''])
                \<lparr>start_time := Some 100, page_line_count := 17, pages := [str_of ''abc''],
                 page_indices := [(0, 3)], total_pages := 1\<rparr>)
     < total_chars ((init ''demo'' [str_of ''abc''])
                \<lparr>start_time := Some 100, page_line_count := 17, pages := [str_of ''abc''],
                 page_indices := [(0, 3)], total_pages := 1\<rparr>) \<and>
   ((100::real) \<noteq> 0 \<and> (101::real) \<noteq> 100 \<and> (102::real) \<noteq> 100 \<and> (103::real) \<noteq> 100 \<and>
    (80::int) \<noteq> 0) \<and>
   run (init ''demo'' [str_of ''abc'']) 24 80 100 [(101, 97), (102, 120), (103, 99)] =
     Returned True
       ((init ''demo'' [str_of ''abc''])
          \<lparr>correct_chars := 2, wrong_chars := 1, current_pos := 3,
           user_input := str_of ''axc'', start_time := Some 100, end_time := Some 103,
           page_line_count := 17, pages := [str_of ''abc''],
           page_indices := [(0, 3)], total_pages := 1\<rparr>)"
proof -
  let ?w = "(init ''demo'' [str_of ''abc''])
                \<lparr>start_time := Some 100, page_line_count := 17, pages := [str_of ''abc''],
                 page_indices := [(0, 3)], total_pages := 1\<rparr>"
  have h: "run (init ''demo'' [str_of ''abc'']) 24 80 100 [] = Blocked ?w"
    by (simp add: eval_defs)
  from type_char_judges [where s = ?w and name = "''demo''" and ls = "[str_of ''abc'']"
      and height = 24 and width = 80 and ?t0.0 = 100 and evs = "[]"] h
  have waits: "current_pos ?w < total_chars ?w" by blast
  from type_char_judges [where s = "init ''demo'' [str_of ''abc'']" and c = 97
      and ?t0.0 = 100 and ?t1.0 = 101 and ?t2.0 = 102 and ?t3.0 = 103 and width = 80
      and name = "''demo''" and height = 24] h waits
  show ?thesis by (simp add: init_def str_of_def)
qed

section \<open>Keys that are not characters\<close>

text \<open>
  Claim C6, as the spec states it, fails: the loop has no notion of an invalid key. Key
  1 (Ctrl-A, a control character that is not rendered) is appended to the typed
  characters and judged wrong, and the position advances to 1; curses.KEY_UP (259),
  which is no character at all, is treated the same way.
\<close>

theorem unrenderable_key_advances_position:
  "run (init ''demo'' [str_of ''ab'']) 24 80 100 [(101, 1)] =
     Blocked ((init ''demo'' [str_of ''ab''])
                \<lparr>start_time := Some 100, page_line_count := 17, pages := [str_of ''ab''],
                 page_indices := [(0, 2)], total_pages := 1,
                 user_input := [1], wrong_chars := 1, current_pos := 1\<rparr>) \<and>
   handle_key (init ''demo'' [str_of ''ab'']) 259 =
     Inr ((init ''demo'' [str_of ''ab''])\<lparr>user_input := [259], wrong_chars := 1, current_pos := 1\<rparr>)"
  by (simp add: eval_defs)

text \<open>
  Claim C6, amended: every input event whose key is in the range of \<open>chr\<close> and is
  neither ESC nor one of the two backspace keys, renderable or not, is handled as the
  typed character \<open>chr(key)\<close>: it is appended to the typed characters and judged
  against the reference character at the position (\<open>correct_chars\<close> is incremented when
  they are equal, \<open>wrong_chars\<close> otherwise), and the position advances by one. A session
  that waits for a key and is given such a key does not stay in the state it waited in.
\<close>

theorem every_other_key_is_typed:
  assumes "key \<noteq> 27" "key \<noteq> KEY_BACKSPACE" "key \<noteq> 127" "0 \<le> key" "key < 1114112"
  shows "(0 \<le> current_pos s \<and> current_pos s < int (length (text_str s)) \<longrightarrow>
            handle_key s key =
              Inr (if nat key = text_str s ! nat (current_pos s)
                   then s\<lparr>user_input := user_input s @ [nat key],
                          correct_chars := correct_chars s + 1,
                          current_pos := current_pos s + 1\<rparr>
                   else s\<lparr>user_input := user_input s @ [nat key],
                          wrong_chars := wrong_chars s + 1,
                          current_pos := current_pos s + 1\<rparr>)) \<and>
         (run (init name ls) height width t0 evs = Blocked s \<longrightarrow>
            run (init name ls) height width t0 (evs @ [(t, key)]) \<noteq> Blocked s \<and>
            (\<forall>s2. run (init name ls) height width t0 (evs @ [(t, key)]) = Blocked s2 \<longrightarrow>
                  current_pos s2 = current_pos s + 1 \<and>
                  user_input s2 = user_input s @ [nat key] \<and>
                  correct_chars s2 = correct_chars s +
                    (if nat key = text_str s ! nat (current_pos s) then 1 else 0) \<and>
                  wrong_chars s2 = wrong_chars s +
                    (if nat key = text_str s ! nat (current_pos s) then 0 else 1)))"
proof -
  have typed: "handle_key s key =
              Inr (if nat key = text_str s ! nat (current_pos s)
                   then s\<lparr>user_input := user_input s @ [nat key],
                          correct_chars := correct_chars s + 1,
                          current_pos := current_pos s + 1\<rparr>
                   else s\<lparr>user_input := user_input s @ [nat key],
                          wrong_chars := wrong_chars s + 1,
                          current_pos := current_pos s + 1\<rparr>)"
    if "0 \<le> current_pos s \<and> current_pos s < int (length (text_str s))"
    using that assms
    by (simp add: handle_key_def py_chr_def type_char_def py_index_def Let_def)
  have counted: "current_pos s2 = current_pos s + 1 \<and>
                  user_input s2 = user_input s @ [nat key] \<and>
                  correct_chars s2 = correct_chars s +
                    (if nat key = text_str s ! nat (current_pos s) then 1 else 0) \<and>
                  wrong_chars s2 = wrong_chars s +
                    (if nat key = text_str s ! nat (current_pos s) then 0 else 1)"
    if blocked: "run (init name ls) height width t0 evs = Blocked s"
      and after: "run (init name ls) height width t0 (evs @ [(t, key)]) = Blocked s2" for s2
  proof -
    from run_as_main_loop [OF blocked] obtain s0 where s0: "session_inv s0"
      "\<And>evs'. run (init name ls) height width t0 evs' = main_loop s0 t0 evs'"
      by blast
    from blocked s0(2) have loop: "main_loop s0 t0 evs = Blocked s" by simp
    from main_loop_result [OF loop] s0(1) have "waiting s" "session_inv s" by simp_all
    then have range: "0 \<le> current_pos s \<and> current_pos s < int (length (text_str s))"
      by (auto simp: waiting_def session_inv_def)
    from after have "main_loop s0 t0 (evs @ [(t, key)]) = Blocked s2" by (simp add: s0(2))
    from one_more_event [OF loop s0(1) this] obtain s' where s':
      "handle_key s key = Inr s'" "s2 = s'\<lparr>current_page := current_page s2\<rparr>"
      by blast
    from arg_cong [OF s'(2), of current_pos] arg_cong [OF s'(2), of user_input]
      arg_cong [OF s'(2), of correct_chars] arg_cong [OF s'(2), of wrong_chars]
    have "current_pos s2 = current_pos s'" "user_input s2 = user_input s'"
      "correct_chars s2 = correct_chars s'" "wrong_chars s2 = wrong_chars s'"
      by simp_all
    with typed [OF range] s'(1) show ?thesis by (auto split: if_splits)
  qed
  have moved: "run (init name ls) height width t0 (evs @ [(t, key)]) \<noteq> Blocked s"
    if blocked: "run (init name ls) height width t0 evs = Blocked s"
    using counted [OF blocked, of s] by auto
  from typed counted moved show ?thesis by blast
qed

theorem every_other_key_is_typed_witness:
  "((1::int) \<noteq> 27 \<and> (1::int) \<noteq> KEY_BACKSPACE \<and> (1::int) \<noteq> 127 \<and> 0 \<le> (1::int) \<and>
    (1::int) < 1114112) \<and>
   (0 \<le> current_pos (init ''demo'' [str_of ''ab'']) \<and>
    current_pos (init ''demo'' [str_of ''ab'']) < int (length (text_str (init ''demo'' [str_of ''ab''])))) \<and>
   handle_key (init ''demo'' [str_of ''ab'']) 1 =
     Inr ((init ''demo'' [str_of ''ab''])\<lparr>user_input := [1], wrong_chars := 1, current_pos := 1\<rparr>) \<and>
   run (init ''demo'' [str_of ''ab'']) 24 80 100 [] =
     Blocked ((init ''demo'' [str_of ''ab''])
                \<lparr>start_time := Some 100, page_line_count := 17, pages := [str_of ''ab''],
                 page_indices := [(0, 2)], total_pages := 1\<rparr>) \<and>
   run (init ''demo'' [str_of ''ab'']) 24 80 100 ([] @ [(101, 1)]) =
     Blocked ((init ''demo'' [str_of ''ab''])
                \<lparr>start_time := Some 100, page_line_count := 17, pages := [str_of ''ab''],
                 page_indices := [(0, 2)], total_pages := 1,
                 user_input := [1], wrong_chars := 1, current_pos := 1\<rparr>) \<and>
   current_pos ((init ''demo'' [str_of ''ab''])
                \<lparr>start_time := Some 100, page_line_count := 17, pages := [str_of ''ab''],
                 page_indices := [(0, 2)], total_pages := 1,
                 user_input := [1], wrong_chars := 1, current_pos := 1\<rparr>) =
     current_pos ((init ''demo'' [str_of ''ab''])
                \<lparr>start_time := Some 100, page_line_count := 17, pages := [str_of ''ab''],
                 page_indices := [(0, 2)], total_pages := 1\<rparr>) + 1"
proof -
  let ?i = "init ''demo'' [str_of ''ab'']"
  let ?w = "(init ''demo'' [str_of ''ab''])
                \<lparr>start_time := Some 100, page_line_count := 17, pages := [str_of ''ab''],
                 page_indices := [(0, 2)], total_pages := 1\<rparr>"
  let ?t = "(init ''demo'' [str_of ''ab''])
                \<lparr>start_time := Some 100, page_line_count := 17, pages := [str_of ''ab''],
                 page_indices := [(0, 2)], total_pages := 1,
                 user_input := [1], wrong_chars := 1, current_pos := 1\<rparr>"
  have k: "(1::int) \<noteq> 27" "(1::int) \<noteq> KEY_BACKSPACE" "(1::int) \<noteq> 127" "0 \<le> (1::int)"
    "(1::int) < 1114112"
    by (simp_all add: KEY_BACKSPACE_def)
  have p: "0 \<le> current_pos ?i \<and> current_pos ?i < int (length (text_str ?i))"
    by (simp add: init_def str_of_def)
  from every_other_key_is_typed [OF k, where s = ?i] p
  have typed: "handle_key ?i 1 = Inr (?i\<lparr>user_input := [1], wrong_chars := 1, current_pos := 1\<rparr>)"
    by (simp add: init_def str_of_def)
  have h: "run ?i 24 80 100 [] = Blocked ?w" by (simp add: eval_defs)
  have h2: "run ?i 24 80 100 ([] @ [(101, 1)]) = Blocked ?t" by (simp add: eval_defs)
  from every_other_key_is_typed [OF k, where s = ?w and name = "''demo''"
      and ls = "[str_of ''ab'']" and height = 24 and width = 80 and ?t0.0 = 100
      and evs = "[]" and t = 101] h h2
  have moved: "current_pos ?t = current_pos ?w + 1" by blast
  from k p typed h h2 moved show ?thesis by blast
qed

section \<open>Division by a zero elapsed time\<close>

text \<open>
  Claim C5: speed and accuracy for the header, and speed for the record, never raise a
  division error when elapsed time or position is zero. The header guards the position
  (line 165) and the record's accuracy guards \<open>total_chars\<close> (line 257); neither
  guards the elapsed time. A header drawn at position 1 at the very clock reading the
  session started with raises ZeroDivisionError (line 166), so does the session whose
  first key arrives at that reading, and so does \<open>save_record\<close> when \<open>end_time\<close>
  equals \<open>start_time\<close> (line 258).
\<close>

theorem zero_elapsed_raises:
  "draw_header ((init ''demo'' [str_of ''ab''])
                  \<lparr>start_time := Some 100, user_input := str_of ''a'', correct_chars := 1,
                   current_pos := 1\<rparr>) 100 = Inl ZeroDivisionError \<and>
   run (init ''demo'' [str_of ''ab'']) 24 80 100 [(100, of_char CHR ''a'')] = Raised ZeroDivisionError \<and>
   save_record ((init ''demo'' [str_of ''ab''])
                  \<lparr>start_time := Some 100, end_time := Some 100, user_input := str_of ''ab'',
                   correct_chars := 2, current_pos := 2\<rparr>) = Inl ZeroDivisionError"
  by (simp add: eval_defs)

section \<open>Cancellation\<close>

text \<open>
  Claim C8: a session cancelled mid-session has \<open>end_time\<close> set, produces no record, and
  is reported as not completed. Whenever a session waits for a key, the text is not
  finished, and ESC as the next key makes \<open>run\<close> return \<open>False\<close> with \<open>end_time\<close> set
  to the clock at that key, and \<open>main\<close> ends \<open>Canceled\<close>, the branch that saves no
  record; and every run that returns \<open>False\<close> has \<open>end_time\<close> set with the text
  unfinished, and ends \<open>Canceled\<close>, which is not a result with a record.
\<close>

theorem cancel_mid_session:
  "(run (init name ls) height width t0 evs = Blocked s \<longrightarrow>
      current_pos s < total_chars s \<and>
      run (init name ls) height width t0 (evs @ [(t, 27)]) = Returned False (s\<lparr>end_time := Some t\<rparr>) \<and>
      main name ls height width t0 (evs @ [(t, 27)]) = Canceled) \<and>
   (run (init name ls) height width t0 evs = Returned False s \<longrightarrow>
      end_time s \<noteq> None \<and> current_pos s < total_chars s \<and>
      main name ls height width t0 evs = Canceled) \<and>
   (\<forall>r. Canceled \<noteq> Results r)"
proof -
  have waits: "current_pos s < total_chars s \<and>
      run (init name ls) height width t0 (evs @ [(t, 27)]) = Returned False (s\<lparr>end_time := Some t\<rparr>) \<and>
      main name ls height width t0 (evs @ [(t, 27)]) = Canceled"
    if blocked: "run (init name ls) height width t0 evs = Blocked s"
  proof -
    from run_as_main_loop [OF blocked] obtain s0 where
      s0: "\<And>evs'. run (init name ls) height width t0 evs' = main_loop s0 t0 evs'"
      by blast
    from blocked s0 have loop: "main_loop s0 t0 evs = Blocked s" by simp
    from main_loop_result [OF loop] have "waiting s" by simp
    then have mid: "current_pos s < total_chars s" by (simp add: waiting_def)
    from main_loop_one_more [OF loop, of t 27]
    have "run (init name ls) height width t0 (evs @ [(t, 27)]) = Returned False (s\<lparr>end_time := Some t\<rparr>)"
      by (simp add: s0)
    with mid show ?thesis by (simp add: main_def)
  qed
  have cancelled: "end_time s \<noteq> None \<and> current_pos s < total_chars s \<and>
      main name ls height width t0 evs = Canceled"
    if ret: "run (init name ls) height width t0 evs = Returned False s"
  proof -
    from run_as_main_loop [OF ret] obtain s0 where
      s0: "\<And>evs'. run (init name ls) height width t0 evs' = main_loop s0 t0 evs'"
      by blast
    from ret s0 have loop: "main_loop s0 t0 evs = Returned False s" by simp
    from main_loop_result [OF loop, of s False] ret show ?thesis
      by (simp add: main_def)
  qed
  from waits cancelled show ?thesis by blast
qed

theorem cancel_mid_session_witness:
  "run (init ''demo'' [str_of ''ab'']) 24 80 100 [(101, of_char CHR ''a'')] =
     Blocked ((init ''demo'' [str_of ''ab''])
                \<lparr>start_time := Some 100, page_line_count := 17, pages := [str_of ''ab''],
                 page_indices := [(0, 2)], total_pages := 1,
                 user_input := str_of ''a'', correct_chars := 1, current_pos := 1\<rparr>) \<and>
   run (init ''demo'' [str_of ''ab'']) 24 80 100 ([(101, of_char CHR ''a'')] @ [(102, 27)]) =
     Returned False (((init ''demo'' [str_of ''ab''])
                \<lparr>start_time := Some 100, page_line_count := 17, pages := [str_of ''ab''],
                 page_indices := [(0, 2)], total_pages := 1,
                 user_input := str_of ''a'', correct_chars := 1, current_pos := 1\<rparr>)\<lparr>end_time := Some 102\<rparr>) \<and>
   end_time (((init ''demo'' [str_of ''ab''])
                \<lparr>start_time := Some 100, page_line_count := 17, pages := [str_of ''ab''],
                 page_indices := [(0, 2)], total_pages := 1,
                 user_input := str_of ''a'', correct_chars := 1, current_pos := 1\<rparr>)\<lparr>end_time := Some 102\<rparr>) \<noteq> None \<and>
   main ''demo'' [str_of ''ab''] 24 80 100 ([(101, of_char CHR ''a'')] @ [(102, 27)]) = Canceled"
proof -
  let ?s = "(init ''demo'' [str_of ''ab''])
                \<lparr>start_time := Some 100, page_line_count := 17, pages := [str_of ''ab''],
                 page_indices := [(0, 2)], total_pages := 1,
                 user_input := str_of ''a'', correct_chars := 1, current_pos := 1\<rparr>"
  have h: "run (init ''demo'' [str_of ''ab'']) 24 80 100 [(101, of_char CHR ''a'')] = Blocked ?s"
    by (simp add: eval_defs)
  from cancel_mid_session [where name = "''demo''" and ls = "[str_of ''ab'']" and height = 24
      and width = 80 and ?t0.0 = 100 and evs = "[(101, of_char CHR ''a'')]" and s = ?s and t = 102] h
  have c: "run (init ''demo'' [str_of ''ab'']) 24 80 100 ([(101, of_char CHR ''a'')] @ [(102, 27)]) =
             Returned False (?s\<lparr>end_time := Some 102\<rparr>)"
    by blast
  from cancel_mid_session [where name = "''demo''" and ls = "[str_of ''ab'']" and height = 24
      and width = 80 and ?t0.0 = 100 and evs = "[(101, of_char CHR ''a'')] @ [(102, 27)]"
      and s = "?s\<lparr>end_time := Some 102\<rparr>"] c
  have "end_time (?s\<lparr>end_time := Some 102\<rparr>) \<noteq> None"
    "main ''demo'' [str_of ''ab''] 24 80 100 ([(101, of_char CHR ''a'')] @ [(102, 27)]) = Canceled"
    by blast+
  with h c show ?thesis by blast
qed

section \<open>Accuracy of a completed record\<close>

text \<open>
  Claim C10: some input sequence completes a session whose record has an accuracy above
  100. On the text "ab": 'a', backspace, 'a', 'b' completes the session with
  \<open>correct_chars = 3\<close> of \<open>total_chars = 2\<close>, and the record's accuracy is 150.
\<close>

theorem accuracy_can_exceed_100:
  "\<exists>evs r. main ''demo'' [str_of ''ab''] 24 80 100 evs = Results r \<and>
           rec_total_chars r = 2 \<and> rec_correct_chars r = 3 \<and> rec_accuracy r = 150 \<and>
           rec_accuracy r > 100"
proof -
  let ?r = "\<lparr>rec_exercise = ''demo'', rec_duration = 4, rec_total_chars = 2,
                 rec_correct_chars = 3, rec_wrong_chars = 0, rec_accuracy = 150,
                 rec_speed_wpm = 6\<rparr>"
  have "main ''demo'' [str_of ''ab''] 24 80 100
          [(101, of_char CHR ''a''), (102, 127), (103, of_char CHR ''a''), (104, of_char CHR ''b'')] =
        Results ?r"
    by (simp add: eval_defs)
  moreover have "rec_total_chars ?r = 2 \<and> rec_correct_chars ?r = 3 \<and> rec_accuracy ?r = 150 \<and>
           rec_accuracy ?r > 100"
    by simp
  ultimately show ?thesis by blast
qed

end
